theory Spec2Isabelle
  imports Main "HOL-Library.Sublist" "HOL-Library.Word"
begin

section \<open>The zlog fluent logger: data model\<close>

text \<open>
  The embedding follows the configurable revision of \<^verbatim>\<open>zlog.go\<close> (the one with
  \<^verbatim>\<open>WithError\<close>, \<^verbatim>\<open>getMaxCallStackDepth\<close> and \<^verbatim>\<open>applyAutoFeatures\<close>).
  Go's \<^verbatim>\<open>int\<close> is modelled as \<open>int\<close>: the only arithmetic on it is the loop
  counter \<^verbatim>\<open>skip++\<close>, executed under \<^verbatim>\<open>skip < maxCallStackDepth\<close>, and
  \<^verbatim>\<open>moduleSeparator+1\<close> on an index into a string, so no operation can wrap.
  Go strings are byte sequences, as \<open>string\<close> is.
\<close>

subsection \<open>Panics\<close>

text \<open>
  The run-time panics the modelled code could raise: calling a method on a nil value
  and slicing a string out of range. A function that may panic returns \<open>panic + 'a\<close>.
\<close>

datatype panic = NilDereference | SliceOutOfRange

subsection \<open>slog levels and attributes\<close>

type_synonym Level = int

definition LevelDebug :: Level where "LevelDebug = -4"
definition LevelInfo :: Level where "LevelInfo = 0"
definition LevelWarn :: Level where "LevelWarn = 4"
definition LevelError :: Level where "LevelError = 8"

text \<open>
  The values the builder hands to \<^verbatim>\<open>slog\<close>: \<^verbatim>\<open>slog.String\<close>, \<^verbatim>\<open>slog.Bool\<close>, and
  \<^verbatim>\<open>slog.Any\<close> applied to a \<^verbatim>\<open>[]string\<close> or to a \<^verbatim>\<open>map[string]any\<close>. The type
  \<open>'v\<close> stands for the non-nil values a context can hold.
\<close>

datatype 'v Value =
    slog_String string
  | slog_Bool bool
  | slog_Any_strings "string list"
  | slog_Any_map "string \<rightharpoonup> 'v"

datatype 'v Attr = Attr (Key: string) (Val: "'v Value")

subsection \<open>Configuration\<close>

record levelConfig =
  AutoSource :: bool
  AutoCallStack :: bool
  MaxCallStackDepth :: int

record logConfig =
  Debug_cfg :: levelConfig
  Info_cfg :: levelConfig
  Warn_cfg :: levelConfig
  Error_cfg :: levelConfig

text \<open>Indexing a Go map of ints: a missing key reads as zero.\<close>

definition map_index :: "('k \<rightharpoonup> int) \<Rightarrow> 'k \<Rightarrow> int" where
  "map_index m k = (case m k of None \<Rightarrow> 0 | Some v \<Rightarrow> v)"

definition defaultCallStackDepths :: "Level \<rightharpoonup> int" where
  "defaultCallStackDepths =
     [LevelDebug \<mapsto> 20, LevelInfo \<mapsto> 5, LevelWarn \<mapsto> 5, LevelError \<mapsto> 10]"

text \<open>\<^verbatim>\<open>getMaxCallStackDepth\<close>; the global \<^verbatim>\<open>globalConfig\<close> is passed in.\<close>

definition getMaxCallStackDepth :: "logConfig \<Rightarrow> Level \<Rightarrow> int" where
  "getMaxCallStackDepth globalConfig level =
     (if level = LevelDebug then
        (if MaxCallStackDepth (Debug_cfg globalConfig) > 0
         then MaxCallStackDepth (Debug_cfg globalConfig)
         else map_index defaultCallStackDepths level)
      else if level = LevelInfo then
        (if MaxCallStackDepth (Info_cfg globalConfig) > 0
         then MaxCallStackDepth (Info_cfg globalConfig)
         else map_index defaultCallStackDepths level)
      else if level = LevelWarn then
        (if MaxCallStackDepth (Warn_cfg globalConfig) > 0
         then MaxCallStackDepth (Warn_cfg globalConfig)
         else map_index defaultCallStackDepths level)
      else if level = LevelError then
        (if MaxCallStackDepth (Error_cfg globalConfig) > 0
         then MaxCallStackDepth (Error_cfg globalConfig)
         else map_index defaultCallStackDepths level)
      else 5)"

subsection \<open>The builder\<close>

text \<open>
  \<^verbatim>\<open>zlogImpl\<close>. The \<^verbatim>\<open>*slog.Logger\<close> field is one of the four package loggers, each
  created by \<^verbatim>\<open>initNewSlog\<close> for one level; it is represented by that level. The
  methods mutate the receiver and return it, so the model returns the updated record.
\<close>

record 'v zlogImpl =
  logger :: Level
  attrs :: "'v Attr list"
  maxCallStackDepth :: int

definition appendAttr :: "'v zlogImpl \<Rightarrow> 'v Attr \<Rightarrow> 'v zlogImpl" where
  "appendAttr z attr = z\<lparr>attrs := attrs z @ [attr]\<rparr>"

section \<open>String helpers of the Go library\<close>

text \<open>\<^verbatim>\<open>strings.Join(elems, sep)\<close>.\<close>

fun Join :: "string list \<Rightarrow> string \<Rightarrow> string" where
  "Join [] sep = []"
| "Join [x] sep = x"
| "Join (x # y # ys) sep = x @ sep @ Join (y # ys) sep"

text \<open>\<^verbatim>\<open>strings.HasPrefix(s, prefix)\<close>.\<close>

definition HasPrefix :: "string \<Rightarrow> string \<Rightarrow> bool" where
  "HasPrefix s pre = (length s \<ge> length pre \<and> take (length pre) s = pre)"

text \<open>
  \<^verbatim>\<open>strings.LastIndex(s, "/")\<close> for a one-byte separator: the index of its last
  occurrence, or \<open>-1\<close>.
\<close>

fun LastIndex :: "string \<Rightarrow> char \<Rightarrow> int" where
  "LastIndex [] c = -1"
| "LastIndex (x # xs) c =
     (let r = LastIndex xs c in
      if r \<noteq> -1 then r + 1 else if x = c then 0 else -1)"

text \<open>The slice expression \<^verbatim>\<open>s[i:]\<close>, which panics when \<open>i\<close> is out of range.\<close>

definition slice_from :: "string \<Rightarrow> int \<Rightarrow> panic + string" where
  "slice_from s i =
     (if 0 \<le> i \<and> i \<le> int (length s) then Inr (drop (nat i) s) else Inl SliceOutOfRange)"

text \<open>\<^verbatim>\<open>strconv.FormatInt(i, 10)\<close>.\<close>

fun digits10 :: "nat \<Rightarrow> string" where
  "digits10 n =
     (if n < 10 then [''0123456789'' ! n]
      else digits10 (n div 10) @ [''0123456789'' ! (n mod 10)])"

declare digits10.simps [simp del]

definition FormatInt :: "int \<Rightarrow> string" where
  "FormatInt i = (if i < 0 then CHR ''-'' # digits10 (nat (- i)) else digits10 (nat i))"

section \<open>The frame resolver\<close>

text \<open>
  The process call stack as \<^verbatim>\<open>getSourceString\<close> observes it. \<open>Caller rt skip\<close> is
  \<^verbatim>\<open>runtime.Caller(skip)\<close> called from \<^verbatim>\<open>getSourceString\<close>: \<open>None\<close> when it reports
  \<^verbatim>\<open>ok = false\<close>, otherwise the program counter, file and line. \<open>FuncForPC rt pc\<close> is
  \<^verbatim>\<open>runtime.FuncForPC(pc)\<close>: \<open>None\<close> for a nil \<^verbatim>\<open>*Func\<close>, otherwise the function's
  \<^verbatim>\<open>Name()\<close>. Both are parameters: nothing is assumed about the shape of the stack.
\<close>

type_synonym uintptr = "64 word"

record goruntime =
  Caller :: "int \<Rightarrow> (uintptr \<times> string \<times> int) option"
  FuncForPC :: "uintptr \<Rightarrow> string option"

text \<open>
  \<^verbatim>\<open>getSourceString(skip)\<close> returns \<^verbatim>\<open>(string, bool)\<close>; the model adds the panic the
  slice expression could raise.
\<close>

definition getSourceString :: "goruntime \<Rightarrow> int \<Rightarrow> panic + (string \<times> bool)" where
  "getSourceString rt skip =
     (case Caller rt skip of
        None \<Rightarrow> Inr ('''', False)
      | Some (pc, file, line) \<Rightarrow>
          (case (case FuncForPC rt pc of
                   None \<Rightarrow> Inr ''?''
                 | Some name \<Rightarrow>
                     (let moduleSeparator = LastIndex name (CHR ''/'') in
                      if moduleSeparator \<noteq> -1 then slice_from name (moduleSeparator + 1)
                      else Inr name)) of
             Inl p \<Rightarrow> Inl p
           | Inr funcName \<Rightarrow>
               Inr (''#'' @ funcName @ '' @ '' @ file @ '':'' @ FormatInt line, True)))"

section \<open>The call-stack collector\<close>

text \<open>
  The loop \<^verbatim>\<open>for skip := start; skip < z.maxCallStackDepth; skip++\<close> shared by
  \<^verbatim>\<open>WithCallStack\<close> (start 2) and \<^verbatim>\<open>applyAutoFeatures\<close> (start 3). The argument
  \<open>callStack\<close> is the slice being built. The argument \<open>probed\<close> is an observer the
  source does not have: it records, in order, each skip value handed to
  \<^verbatim>\<open>getSourceString\<close>, and influences nothing.
\<close>

function callStackLoop ::
  "goruntime \<Rightarrow> int \<Rightarrow> int \<Rightarrow> int list \<Rightarrow> string list \<Rightarrow> panic + (int list \<times> string list)" where
  "callStackLoop rt skip maxDepth probed callStack =
     (if skip < maxDepth then
        (case getSourceString rt skip of
           Inl p \<Rightarrow> Inl p
         | Inr (current, ok) \<Rightarrow>
             if \<not> ok then callStackLoop rt (skip + 1) maxDepth (probed @ [skip]) callStack
             else if HasPrefix current ''#main.main''
               then Inr (probed @ [skip], callStack @ [current])
             else callStackLoop rt (skip + 1) maxDepth (probed @ [skip]) (callStack @ [current]))
      else Inr (probed, callStack))"
  by pat_completeness auto
termination
  by (relation "measure (\<lambda>(rt, skip, maxDepth, probed, callStack). nat (maxDepth - skip))") auto

declare callStackLoop.simps [simp del]

section \<open>Builder methods\<close>

fun Context_loop :: "(string \<Rightarrow> 'v option) \<Rightarrow> string list \<Rightarrow> (string \<rightharpoonup> 'v) \<Rightarrow> (string \<rightharpoonup> 'v)" where
  "Context_loop ctx [] contextMap = contextMap"
| "Context_loop ctx (key # keys) contextMap =
     (case ctx key of
        None \<Rightarrow> Context_loop ctx keys contextMap
      | Some v \<Rightarrow> Context_loop ctx keys (contextMap(key \<mapsto> v)))"

text \<open>
  \<^verbatim>\<open>Context(ctx, keys)\<close>. \<open>ctx key\<close> is \<^verbatim>\<open>ctx.Value(key)\<close>, \<open>None\<close> standing for nil;
  \<^verbatim>\<open>len(contextMap) == 0\<close> is emptiness of the map's domain.
\<close>

definition Context :: "'v zlogImpl \<Rightarrow> (string \<Rightarrow> 'v option) \<Rightarrow> string list \<Rightarrow> 'v zlogImpl" where
  "Context z ctx keys =
     (let contextMap = Context_loop ctx keys Map.empty in
      if dom contextMap = {} then z
      else appendAttr z (Attr ''app_ctx'' (slog_Any_map contextMap)))"

text \<open>\<^verbatim>\<open>Segment(mainSegment, detail...)\<close>.\<close>

definition Segment :: "'v zlogImpl \<Rightarrow> string \<Rightarrow> string list \<Rightarrow> 'v zlogImpl" where
  "Segment z mainSegment detail =
     (let mainSegment' =
            (if length detail > 0 then mainSegment @ ''/'' @ Join detail ''/'' else mainSegment)
      in appendAttr z (Attr ''segment'' (slog_String mainSegment')))"

text \<open>
  An \<^verbatim>\<open>error\<close> interface value: \<open>None\<close> is nil, \<open>Some (errorString s)\<close> a value whose
  \<^verbatim>\<open>Error()\<close> method returns \<open>s\<close>. Calling the method on nil panics.
\<close>

datatype goerror = errorString string

definition err_Error :: "goerror option \<Rightarrow> panic + string" where
  "err_Error err = (case err of None \<Rightarrow> Inl NilDereference | Some (errorString s) \<Rightarrow> Inr s)"

definition WithError :: "'v zlogImpl \<Rightarrow> goerror option \<Rightarrow> panic + 'v zlogImpl" where
  "WithError z err =
     (case err_Error err of
        Inl p \<Rightarrow> Inl p
      | Inr msg \<Rightarrow> Inr (appendAttr z (Attr ''error_msg'' (slog_String msg))))"

definition Err :: "'v zlogImpl \<Rightarrow> goerror option \<Rightarrow> panic + 'v zlogImpl" where
  "Err z err = WithError z err"

definition WithSource :: "goruntime \<Rightarrow> 'v zlogImpl \<Rightarrow> panic + 'v zlogImpl" where
  "WithSource rt z =
     (case getSourceString rt 2 of
        Inl p \<Rightarrow> Inl p
      | Inr (source, ok) \<Rightarrow>
          if \<not> ok then Inr z else Inr (appendAttr z (Attr ''source'' (slog_String source))))"

definition WithCallStack :: "goruntime \<Rightarrow> 'v zlogImpl \<Rightarrow> panic + 'v zlogImpl" where
  "WithCallStack rt z =
     (case callStackLoop rt 2 (maxCallStackDepth z) [] [] of
        Inl p \<Rightarrow> Inl p
      | Inr (probed, callStack) \<Rightarrow>
          Inr (appendAttr z (Attr ''callstack'' (slog_Any_strings callStack))))"

text \<open>\<^verbatim>\<open>applyAutoFeatures(level)\<close>, with \<^verbatim>\<open>globalConfig\<close> passed in.\<close>

definition applyAutoFeatures ::
  "goruntime \<Rightarrow> logConfig \<Rightarrow> 'v zlogImpl \<Rightarrow> Level \<Rightarrow> panic + 'v zlogImpl" where
  "applyAutoFeatures rt globalConfig z level =
     (let (autoSource, autoCallStack) =
            (if level = LevelDebug then
               (AutoSource (Debug_cfg globalConfig), AutoCallStack (Debug_cfg globalConfig))
             else if level = LevelInfo then
               (AutoSource (Info_cfg globalConfig), AutoCallStack (Info_cfg globalConfig))
             else if level = LevelWarn then
               (AutoSource (Warn_cfg globalConfig), AutoCallStack (Warn_cfg globalConfig))
             else if level = LevelError then
               (AutoSource (Error_cfg globalConfig), AutoCallStack (Error_cfg globalConfig))
             else (False, False))
      in
      case (if autoSource then
              (case getSourceString rt 3 of
                 Inl p \<Rightarrow> Inl p
               | Inr (source, ok) \<Rightarrow>
                   if ok then Inr (appendAttr z (Attr ''source'' (slog_String source)))
                   else Inr z)
            else Inr z) of
        Inl p \<Rightarrow> Inl p
      | Inr z1 \<Rightarrow>
          if autoCallStack then
            (case callStackLoop rt 3 (maxCallStackDepth z1) [] [] of
               Inl p \<Rightarrow> Inl p
             | Inr (probed, callStack) \<Rightarrow>
                 Inr (appendAttr z1 (Attr ''callstack'' (slog_Any_strings callStack))))
          else Inr z1)"

text \<open>The four constructors \<^verbatim>\<open>Debug()\<close>, \<^verbatim>\<open>Info()\<close>, \<^verbatim>\<open>Warn()\<close> and \<^verbatim>\<open>Error()\<close>.\<close>

definition Debug :: "goruntime \<Rightarrow> logConfig \<Rightarrow> panic + 'v zlogImpl" where
  "Debug rt globalConfig =
     (let level = LevelDebug;
          z = \<lparr>logger = LevelDebug, attrs = [],
               maxCallStackDepth = getMaxCallStackDepth globalConfig level\<rparr>
      in applyAutoFeatures rt globalConfig z level)"

definition Info :: "goruntime \<Rightarrow> logConfig \<Rightarrow> panic + 'v zlogImpl" where
  "Info rt globalConfig =
     (let level = LevelInfo;
          z = \<lparr>logger = LevelInfo, attrs = [],
               maxCallStackDepth = getMaxCallStackDepth globalConfig level\<rparr>
      in applyAutoFeatures rt globalConfig z level)"

definition Warn :: "goruntime \<Rightarrow> logConfig \<Rightarrow> panic + 'v zlogImpl" where
  "Warn rt globalConfig =
     (let level = LevelWarn;
          z = \<lparr>logger = LevelWarn, attrs = [],
               maxCallStackDepth = getMaxCallStackDepth globalConfig level\<rparr>
      in applyAutoFeatures rt globalConfig z level)"

definition Error :: "goruntime \<Rightarrow> logConfig \<Rightarrow> panic + 'v zlogImpl" where
  "Error rt globalConfig =
     (let level = LevelError;
          z = \<lparr>logger = LevelError, attrs = [],
               maxCallStackDepth = getMaxCallStackDepth globalConfig level\<rparr>
      in applyAutoFeatures rt globalConfig z level)"

section \<open>Vocabulary for the properties\<close>

text \<open>
  What the resolver yields at a skip value, as the collector uses it: the formatted frame
  when \<^verbatim>\<open>getSourceString\<close> reports \<^verbatim>\<open>ok\<close>, nothing otherwise.
\<close>

definition frameAt :: "goruntime \<Rightarrow> int \<Rightarrow> string option" where
  "frameAt rt skip =
     (case getSourceString rt skip of
        Inl p \<Rightarrow> None
      | Inr (current, ok) \<Rightarrow> if ok then Some current else None)"

text \<open>The frame at a skip value is an entry-point frame: it starts with the stop marker.\<close>

definition entryAt :: "goruntime \<Rightarrow> int \<Rightarrow> bool" where
  "entryAt rt skip =
     (case frameAt rt skip of None \<Rightarrow> False | Some current \<Rightarrow> HasPrefix current ''#main.main'')"

text \<open>
  The function name \<^verbatim>\<open>getSourceString\<close> prints for a program counter, with the slice
  taken without a range check.
\<close>

definition funcName_of :: "goruntime \<Rightarrow> uintptr \<Rightarrow> string" where
  "funcName_of rt pc =
     (case FuncForPC rt pc of
        None \<Rightarrow> ''?''
      | Some name \<Rightarrow> drop (nat (LastIndex name (CHR ''/'') + 1)) name)"

text \<open>
  What one run of the loop adds: \<open>pe\<close> to the probed skip values and \<open>ce\<close> to the call
  stack, when started at \<open>skip\<close>.
\<close>

definition loop_post :: "goruntime \<Rightarrow> int \<Rightarrow> int \<Rightarrow> int list \<Rightarrow> string list \<Rightarrow> bool" where
  "loop_post rt skip maxDepth pe ce =
     (prefix pe [skip..maxDepth - 1]
      \<and> ce = List.map_filter (frameAt rt) pe
      \<and> (\<forall>i\<in>set (butlast pe). \<not> entryAt rt i)
      \<and> (pe = [skip..maxDepth - 1] \<or> (pe \<noteq> [] \<and> entryAt rt (last pe))))"

text \<open>Every \<^verbatim>\<open>callstack\<close> attribute of a list holds at most \<open>bound\<close> frames.\<close>

definition callstacks_within :: "'v Attr list \<Rightarrow> int \<Rightarrow> bool" where
  "callstacks_within as bound =
     list_all (\<lambda>a. case a of
                  Attr k (slog_Any_strings callStack) \<Rightarrow>
                    k \<noteq> ''callstack'' \<or> int (length callStack) \<le> bound
                | _ \<Rightarrow> True) as"

subsection \<open>Sample inputs\<close>

text \<open>A stack on which every skip value resolves to the same application frame.\<close>

definition deep_runtime :: goruntime where
  "deep_runtime =
     \<lparr>Caller = (\<lambda>skip. Some (16, ''/app/order.go'', 42)),
      FuncForPC = (\<lambda>pc. Some ''github.com/acme/shop/app.ProcessOrder'')\<rparr>"

text \<open>
  A stack with an application frame at skip 2, no frame at skip 3, a frame without
  symbol at skip 4, \<^verbatim>\<open>main.main\<close> at skip 5 and \<^verbatim>\<open>runtime.main\<close> at skip 6.
\<close>

definition sample_runtime :: goruntime where
  "sample_runtime =
     \<lparr>Caller = (\<lambda>skip.
         if skip = 2 then Some (16, ''/app/order.go'', 42)
         else if skip = 4 then Some (32, ''/app/shim.s'', 7)
         else if skip = 5 then Some (48, ''/app/main.go'', 15)
         else if skip = 6 then Some (64, ''/go/src/runtime/proc.go'', 283)
         else None),
      FuncForPC = (\<lambda>pc.
         if pc = 16 then Some ''github.com/acme/shop/app.ProcessOrder''
         else if pc = 48 then Some ''main.main''
         else if pc = 64 then Some ''runtime.main''
         else None)\<rparr>"

definition sample_config :: logConfig where
  "sample_config =
     \<lparr>Debug_cfg = \<lparr>AutoSource = False, AutoCallStack = False, MaxCallStackDepth = 0\<rparr>,
      Info_cfg = \<lparr>AutoSource = False, AutoCallStack = False, MaxCallStackDepth = 0\<rparr>,
      Warn_cfg = \<lparr>AutoSource = False, AutoCallStack = False, MaxCallStackDepth = -7\<rparr>,
      Error_cfg = \<lparr>AutoSource = True, AutoCallStack = True, MaxCallStackDepth = 3\<rparr>\<rparr>"

definition fresh_logger :: "string zlogImpl" where
  "fresh_logger = \<lparr>logger = LevelInfo, attrs = [], maxCallStackDepth = 5\<rparr>"

definition sample_ctx :: "string \<Rightarrow> string option" where
  "sample_ctx = [''userID'' \<mapsto> ''12345'', ''requestID'' \<mapsto> ''req-abc-123'']"

text \<open>A stack on which no skip value resolves.\<close>

definition empty_runtime :: goruntime where
  "empty_runtime = \<lparr>Caller = (\<lambda>skip. None), FuncForPC = (\<lambda>pc. None)\<rparr>"

text \<open>A builder whose depth is negative, which no constructor produces.\<close>

definition misconfigured_logger :: "string zlogImpl" where
  "misconfigured_logger = \<lparr>logger = LevelInfo, attrs = [], maxCallStackDepth = -3\<rparr>"

section \<open>The resolver never panics\<close>

lemma LastIndex_range: "LastIndex s c \<noteq> -1 \<Longrightarrow> 0 \<le> LastIndex s c \<and> LastIndex s c < int (length s)"
  by (induction s) (auto simp: Let_def split: if_splits)

lemma slice_after_LastIndex:
  "LastIndex name c \<noteq> -1 \<Longrightarrow>
     slice_from name (LastIndex name c + 1) = Inr (drop (nat (LastIndex name c + 1)) name)"
  using LastIndex_range [of name c] by (simp add: slice_from_def)

text \<open>
  \<open>LastIndex\<close> is the position of the last occurrence: it is \<open>-1\<close> exactly when the
  byte does not occur, and otherwise the byte stands there and does not occur after it.
\<close>

lemma LastIndex_ge: "-1 \<le> LastIndex s c"
  by (induction s) (auto simp: Let_def)

lemma LastIndex_absent: "LastIndex s c = -1 \<longleftrightarrow> c \<notin> set s"
proof (induction s)
  case Nil
  then show ?case by simp
next
  case (Cons x xs)
  from LastIndex_ge [of xs c] have "LastIndex xs c + 1 \<noteq> -1" by simp
  with Cons show ?case by (auto simp: Let_def)
qed

lemma LastIndex_last:
  "c \<in> set s \<Longrightarrow>
     s ! nat (LastIndex s c) = c \<and> c \<notin> set (drop (nat (LastIndex s c + 1)) s)"
proof (induction s)
  case Nil
  then show ?case by simp
next
  case (Cons x xs)
  show ?case
  proof (cases "c \<in> set xs")
    case True
    then have ne: "LastIndex xs c \<noteq> -1" by (simp add: LastIndex_absent)
    from LastIndex_range [OF ne] have r: "0 \<le> LastIndex xs c" by simp
    from Cons.IH [OF True] ne r show ?thesis
      by (simp add: Let_def nat_add_distrib)
  next
    case False
    then have "LastIndex xs c = -1" by (simp add: LastIndex_absent)
    with Cons.prems False show ?thesis by (simp add: Let_def)
  qed
qed

lemma getSourceString_total:
  "getSourceString rt skip =
     (case Caller rt skip of None \<Rightarrow> Inr ('''', False)
      | Some (pc, file, line) \<Rightarrow>
         Inr (''#'' @ funcName_of rt pc @ '' @ '' @ file @ '':'' @ FormatInt line, True))"
proof (cases "Caller rt skip")
  case None
  then show ?thesis by (simp add: getSourceString_def)
next
  case (Some fr)
  obtain pc fl ln where fr: "fr = (pc, fl, ln)" by (cases fr)
  show ?thesis
  proof (cases "FuncForPC rt pc")
    case None
    with Some fr show ?thesis by (simp add: getSourceString_def funcName_of_def)
  next
    case (Some name)
    show ?thesis
    proof (cases "LastIndex name (CHR ''/'') = -1")
      case True
      with Some \<open>Caller rt skip = Some fr\<close> fr show ?thesis
        by (simp add: getSourceString_def funcName_of_def)
    next
      case False
      with Some \<open>Caller rt skip = Some fr\<close> fr slice_after_LastIndex [OF False] show ?thesis
        by (simp add: getSourceString_def funcName_of_def)
    qed
  qed
qed

lemma getSourceString_cases:
  obtains (absent) "Caller rt skip = None" "getSourceString rt skip = Inr ('''', False)"
  | (found) current where "Caller rt skip \<noteq> None" "getSourceString rt skip = Inr (current, True)"
  by (cases "Caller rt skip") (auto simp: getSourceString_total)

section \<open>What the collector loop computes\<close>

lemma map_filter_append: "List.map_filter f (xs @ ys) = List.map_filter f xs @ List.map_filter f ys"
  by (simp add: List.map_filter_def)

lemma loop_absent:
  assumes "skip < maxDepth" "getSourceString rt skip = Inr (current, False)"
  shows "callStackLoop rt skip maxDepth probed callStack =
         callStackLoop rt (skip + 1) maxDepth (probed @ [skip]) callStack"
  using assms by (subst callStackLoop.simps) simp

lemma loop_entry:
  assumes "skip < maxDepth" "getSourceString rt skip = Inr (current, True)"
    "HasPrefix current ''#main.main''"
  shows "callStackLoop rt skip maxDepth probed callStack =
         Inr (probed @ [skip], callStack @ [current])"
  using assms by (subst callStackLoop.simps) simp

lemma loop_frame:
  assumes "skip < maxDepth" "getSourceString rt skip = Inr (current, True)"
    "\<not> HasPrefix current ''#main.main''"
  shows "callStackLoop rt skip maxDepth probed callStack =
         callStackLoop rt (skip + 1) maxDepth (probed @ [skip]) (callStack @ [current])"
  using assms by (subst callStackLoop.simps) simp

lemma loop_done:
  assumes "\<not> skip < maxDepth"
  shows "callStackLoop rt skip maxDepth probed callStack = Inr (probed, callStack)"
  using assms by (subst callStackLoop.simps) simp

lemma loop_post_absent:
  assumes "skip < maxDepth" "frameAt rt skip = None" "loop_post rt (skip + 1) maxDepth pe ce"
  shows "loop_post rt skip maxDepth (skip # pe) ce"
proof -
  have up: "[skip..maxDepth - 1] = skip # [skip + 1..maxDepth - 1]"
    using assms(1) by (simp add: upto_rec1)
  have ne: "\<not> entryAt rt skip" using assms(2) by (simp add: entryAt_def)
  show ?thesis
    using assms(2,3) ne unfolding loop_post_def up
    by (auto simp: List.map_filter_simps)
qed

lemma loop_post_frame:
  assumes "skip < maxDepth" "frameAt rt skip = Some current" "\<not> HasPrefix current ''#main.main''"
    "loop_post rt (skip + 1) maxDepth pe ce"
  shows "loop_post rt skip maxDepth (skip # pe) (current # ce)"
proof -
  have up: "[skip..maxDepth - 1] = skip # [skip + 1..maxDepth - 1]"
    using assms(1) by (simp add: upto_rec1)
  have ne: "\<not> entryAt rt skip" using assms(2,3) by (simp add: entryAt_def)
  show ?thesis
    using assms(2,4) ne unfolding loop_post_def up
    by (auto simp: List.map_filter_simps)
qed

lemma loop_post_entry:
  assumes "skip < maxDepth" "frameAt rt skip = Some current" "HasPrefix current ''#main.main''"
  shows "loop_post rt skip maxDepth [skip] [current]"
proof -
  have up: "[skip..maxDepth - 1] = skip # [skip + 1..maxDepth - 1]"
    using assms(1) by (simp add: upto_rec1)
  show ?thesis
    using assms(2,3) unfolding loop_post_def up
    by (simp add: List.map_filter_simps entryAt_def)
qed

lemma loop_shape:
  "\<exists>pe ce. callStackLoop rt skip maxDepth probed callStack = Inr (probed @ pe, callStack @ ce)
        \<and> loop_post rt skip maxDepth pe ce"
proof (induction rt skip maxDepth probed callStack rule: callStackLoop.induct)
  case (1 rt skip maxDepth probed callStack)
  show ?case
  proof (cases "skip < maxDepth")
    case False
    then have "loop_post rt skip maxDepth [] []"
      by (simp add: loop_post_def List.map_filter_simps)
    with loop_done [OF False] show ?thesis by force
  next
    case True
    show ?thesis
    proof (cases rule: getSourceString_cases [of rt skip])
      case absent
      then have fa: "frameAt rt skip = None" by (simp add: frameAt_def)
      from "1.IH"(1) [OF True absent(2), of "''''" False]
      obtain pe ce where
        r: "callStackLoop rt (skip + 1) maxDepth (probed @ [skip]) callStack
              = Inr ((probed @ [skip]) @ pe, callStack @ ce)"
        and p: "loop_post rt (skip + 1) maxDepth pe ce" by auto
      have "callStackLoop rt skip maxDepth probed callStack
              = Inr (probed @ (skip # pe), callStack @ ce)"
        using loop_absent [OF True absent(2)] r by simp
      with loop_post_absent [OF True fa p] show ?thesis by blast
    next
      case (found current)
      then have fa: "frameAt rt skip = Some current" by (simp add: frameAt_def)
      show ?thesis
      proof (cases "HasPrefix current ''#main.main''")
        case True
        have "callStackLoop rt skip maxDepth probed callStack
              = Inr (probed @ [skip], callStack @ [current])"
          using loop_entry [OF \<open>skip < maxDepth\<close> found(2) True] .
        with loop_post_entry [OF \<open>skip < maxDepth\<close> fa True] show ?thesis by blast
      next
        case False
        from "1.IH"(2) [OF \<open>skip < maxDepth\<close> found(2), of current True] False
        obtain pe ce where
          r: "callStackLoop rt (skip + 1) maxDepth (probed @ [skip]) (callStack @ [current])
                = Inr ((probed @ [skip]) @ pe, (callStack @ [current]) @ ce)"
          and p: "loop_post rt (skip + 1) maxDepth pe ce" by auto
        have "callStackLoop rt skip maxDepth probed callStack
                = Inr (probed @ (skip # pe), callStack @ (current # ce))"
          using loop_frame [OF \<open>skip < maxDepth\<close> found(2) False] r by simp
        with loop_post_frame [OF \<open>skip < maxDepth\<close> fa False p] show ?thesis by blast
      qed
    qed
  qed
qed

lemma length_map_filter_le: "length (List.map_filter f xs) \<le> length xs"
  by (induction xs) (auto simp: List.map_filter_simps split: option.splits)

lemma set_map_filter: "set (List.map_filter f xs) = {y. \<exists>x\<in>set xs. f x = Some y}"
  by (induction xs) (auto simp: List.map_filter_simps split: option.splits)

lemma prefix_upto_eq:
  "prefix pe [a..b] \<Longrightarrow> pe \<noteq> [] \<Longrightarrow> pe = [a..last pe]"
proof (induction pe arbitrary: a)
  case Nil
  then show ?case by simp
next
  case (Cons x xs)
  from Cons.prems(1) have ab: "a \<le> b" by (cases "a \<le> b") auto
  then have up: "[a..b] = a # [a + 1..b]" by (simp add: upto_rec1)
  with Cons.prems(1) have xa: "x = a" and pre: "prefix xs [a + 1..b]" by auto
  show ?case
  proof (cases "xs = []")
    case True
    with xa show ?thesis by simp
  next
    case False
    from Cons.IH [OF pre False] have xs: "xs = [a + 1..last xs]" .
    have "last xs \<in> set xs" using False by simp
    with pre have "last xs \<in> set [a + 1..b]" by (meson set_mono_prefix subsetD)
    then have "a \<le> last xs" by simp
    then have "[a..last xs] = a # [a + 1..last xs]" by (simp add: upto_rec1)
    with xs xa False show ?thesis by simp
  qed
qed

lemma post_lengths:
  assumes "loop_post rt skip maxDepth pe ce"
  shows "length ce \<le> length pe" and "int (length pe) \<le> max 0 (maxDepth - skip)"
proof -
  from assms have pre: "prefix pe [skip..maxDepth - 1]"
    and ce: "ce = List.map_filter (frameAt rt) pe" by (simp_all add: loop_post_def)
  show "length ce \<le> length pe" using ce length_map_filter_le by simp
  from pre have "length pe \<le> length [skip..maxDepth - 1]" by (rule prefix_length_le)
  then show "int (length pe) \<le> max 0 (maxDepth - skip)" by simp
qed

lemma post_full:
  assumes "loop_post rt skip maxDepth pe ce"
    and "\<forall>j. skip \<le> j \<and> j < maxDepth \<longrightarrow> \<not> entryAt rt j"
  shows "pe = [skip..maxDepth - 1]"
proof (rule ccontr)
  assume neq: "pe \<noteq> [skip..maxDepth - 1]"
  with assms(1) have ne: "pe \<noteq> []" and e: "entryAt rt (last pe)"
    and pre: "prefix pe [skip..maxDepth - 1]" by (auto simp: loop_post_def)
  have "last pe \<in> set pe" using ne by simp
  with pre have "last pe \<in> set [skip..maxDepth - 1]" by (meson set_mono_prefix subsetD)
  then have "skip \<le> last pe \<and> last pe < maxDepth" by simp
  with assms(2) e show False by blast
qed

lemma post_entry:
  assumes post: "loop_post rt skip maxDepth pe ce"
    and j: "skip \<le> j" "j < maxDepth" "entryAt rt j"
  shows "pe \<noteq> [] \<and> pe = [skip..last pe] \<and> last pe \<le> j \<and> entryAt rt (last pe)
         \<and> ce \<noteq> [] \<and> frameAt rt (last pe) = Some (last ce)"
proof -
  from post have pre: "prefix pe [skip..maxDepth - 1]"
    and ce: "ce = List.map_filter (frameAt rt) pe"
    and bl: "\<forall>i\<in>set (butlast pe). \<not> entryAt rt i"
    and fin: "pe = [skip..maxDepth - 1] \<or> (pe \<noteq> [] \<and> entryAt rt (last pe))"
    by (simp_all add: loop_post_def)
  have jin: "j \<in> set [skip..maxDepth - 1]" using j by simp
  then have ne0: "[skip..maxDepth - 1] \<noteq> []" by auto
  have ne: "pe \<noteq> []" using fin ne0 by auto
  have shape: "pe = [skip..last pe]" using prefix_upto_eq [OF pre ne] .
  have lastin: "skip \<le> last pe"
  proof -
    have "last pe \<in> set pe" using ne by simp
    with pre have "last pe \<in> set [skip..maxDepth - 1]" by (meson set_mono_prefix subsetD)
    then show ?thesis by simp
  qed
  have bshape: "butlast pe = [skip..last pe - 1]"
  proof -
    have "[skip..last pe] = [skip..last pe - 1] @ [last pe]" using lastin by (simp add: upto_rec2)
    with shape have "pe = [skip..last pe - 1] @ [last pe]" by simp
    then have "butlast pe = butlast ([skip..last pe - 1] @ [last pe])" by simp
    then show ?thesis by simp
  qed
  have le: "last pe \<le> j"
  proof (rule ccontr)
    assume "\<not> last pe \<le> j"
    then have "j \<in> set (butlast pe)" using j(1) bshape by simp
    with bl j(3) show False by blast
  qed
  have e: "entryAt rt (last pe)"
  proof (cases "pe = [skip..maxDepth - 1]")
    case True
    then have "last pe = maxDepth - 1" using ne0 j by (simp add: upto_rec2)
    with le j have "last pe = j" by simp
    with j(3) show ?thesis by simp
  next
    case False
    with fin show ?thesis by simp
  qed
  then obtain current where cur: "frameAt rt (last pe) = Some current"
    by (auto simp: entryAt_def split: option.splits)
  have "pe = butlast pe @ [last pe]" using ne by simp
  then have "ce = List.map_filter (frameAt rt) (butlast pe) @ List.map_filter (frameAt rt) [last pe]"
    using ce map_filter_append by metis
  with cur have ce2: "ce = List.map_filter (frameAt rt) (butlast pe) @ [current]"
    by (simp add: List.map_filter_simps)
  then have "ce \<noteq> []" and "last ce = current" by simp_all
  with ne shape le e cur show ?thesis by simp
qed

lemma post_butlast:
  assumes post: "loop_post rt skip maxDepth pe ce"
  shows "\<forall>f\<in>set (butlast ce). \<not> HasPrefix f ''#main.main''"
proof (cases "pe = []")
  case True
  with post show ?thesis by (simp add: loop_post_def List.map_filter_simps)
next
  case False
  from post have ce: "ce = List.map_filter (frameAt rt) pe"
    and bl: "\<forall>i\<in>set (butlast pe). \<not> entryAt rt i"
    by (simp_all add: loop_post_def)
  have "pe = butlast pe @ [last pe]" using False by simp
  then have ce2: "ce = List.map_filter (frameAt rt) (butlast pe) @ List.map_filter (frameAt rt) [last pe]"
    using ce map_filter_append by metis
  have inner: "\<forall>f\<in>set (List.map_filter (frameAt rt) (butlast pe)). \<not> HasPrefix f ''#main.main''"
    using bl by (auto simp: set_map_filter entryAt_def)
  show ?thesis
  proof (cases "frameAt rt (last pe)")
    case None
    with ce2 have "ce = List.map_filter (frameAt rt) (butlast pe)"
      by (simp add: List.map_filter_simps)
    with inner show ?thesis by (metis in_set_butlastD)
  next
    case (Some current)
    with ce2 have "butlast ce = List.map_filter (frameAt rt) (butlast pe)"
      by (simp add: List.map_filter_simps)
    with inner show ?thesis by simp
  qed
qed

lemma loop_result:
  obtains probed callStack where
    "callStackLoop rt skip maxDepth [] [] = Inr (probed, callStack)"
    "loop_post rt skip maxDepth probed callStack"
  using loop_shape [of rt skip maxDepth "[]" "[]"] by auto

section \<open>The builder methods always return\<close>

lemma getMaxCallStackDepth_pos: "0 < getMaxCallStackDepth cfg level"
  by (simp add: getMaxCallStackDepth_def map_index_def defaultCallStackDepths_def
        LevelDebug_def LevelInfo_def LevelWarn_def LevelError_def)

lemma getSourceString_Inr: "\<exists>current ok. getSourceString rt skip = Inr (current, ok)"
  by (cases rule: getSourceString_cases [of rt skip]) auto

lemma WithSource_total:
  "\<exists>z'. WithSource rt z = Inr z'"
  using getSourceString_Inr [of rt 2] by (auto simp: WithSource_def)

lemma WithCallStack_total:
  "\<exists>callStack. WithCallStack rt z =
      Inr (appendAttr z (Attr ''callstack'' (slog_Any_strings callStack)))
    \<and> int (length callStack) \<le> max 0 (maxCallStackDepth z - 2)"
proof -
  obtain probed callStack where
    r: "callStackLoop rt 2 (maxCallStackDepth z) [] [] = Inr (probed, callStack)"
    and post: "loop_post rt 2 (maxCallStackDepth z) probed callStack" by (rule loop_result)
  from post_lengths [OF post] have "int (length callStack) \<le> max 0 (maxCallStackDepth z - 2)"
    by linarith
  with r show ?thesis by (auto simp: WithCallStack_def)
qed

lemma callstacks_within_append:
  "callstacks_within (xs @ ys) b \<longleftrightarrow> callstacks_within xs b \<and> callstacks_within ys b"
  by (simp add: callstacks_within_def)

lemma callstacks_within_mono:
  "callstacks_within xs b \<Longrightarrow> b \<le> b' \<Longrightarrow> callstacks_within xs b'"
  unfolding callstacks_within_def list_all_iff
  by (auto split: Attr.splits Value.splits)

lemma autoSource_step:
  "\<exists>z1. (if autoSource then
           (case getSourceString rt 3 of
              Inl p \<Rightarrow> Inl p
            | Inr (source, ok) \<Rightarrow>
                if ok then Inr (appendAttr z (Attr ''source'' (slog_String source)))
                else Inr z)
         else Inr z) = Inr z1
        \<and> maxCallStackDepth z1 = maxCallStackDepth z
        \<and> (\<exists>new. attrs z1 = attrs z @ new \<and> callstacks_within new b)"
  using getSourceString_Inr [of rt 3]
  by (auto simp: appendAttr_def callstacks_within_def)

lemma autoCallStack_step:
  "\<exists>z2. (if autoCallStack then
            (case callStackLoop rt 3 (maxCallStackDepth z1) [] [] of
               Inl p \<Rightarrow> Inl p
             | Inr (probed, callStack) \<Rightarrow>
                 Inr (appendAttr z1 (Attr ''callstack'' (slog_Any_strings callStack))))
          else Inr z1) = Inr z2
        \<and> maxCallStackDepth z2 = maxCallStackDepth z1
        \<and> (\<exists>new. attrs z2 = attrs z1 @ new
              \<and> callstacks_within new (max 0 (maxCallStackDepth z1 - 3)))"
proof -
  obtain probed callStack where
    r: "callStackLoop rt 3 (maxCallStackDepth z1) [] [] = Inr (probed, callStack)"
    and post: "loop_post rt 3 (maxCallStackDepth z1) probed callStack" by (rule loop_result)
  from post_lengths [OF post]
  have "int (length callStack) \<le> max 0 (maxCallStackDepth z1 - 3)" by linarith
  with r show ?thesis by (auto simp: appendAttr_def callstacks_within_def)
qed

lemma applyAutoFeatures_total:
  "\<exists>z'. applyAutoFeatures rt cfg z level = Inr z'
        \<and> maxCallStackDepth z' = maxCallStackDepth z
        \<and> (\<exists>new. attrs z' = attrs z @ new
              \<and> callstacks_within new (max 0 (maxCallStackDepth z - 3)))"
proof -
  let ?b = "max 0 (maxCallStackDepth z - 3)"
  obtain autoSource autoCallStack where flags:
    "(if level = LevelDebug then
               (AutoSource (Debug_cfg cfg), AutoCallStack (Debug_cfg cfg))
             else if level = LevelInfo then
               (AutoSource (Info_cfg cfg), AutoCallStack (Info_cfg cfg))
             else if level = LevelWarn then
               (AutoSource (Warn_cfg cfg), AutoCallStack (Warn_cfg cfg))
             else if level = LevelError then
               (AutoSource (Error_cfg cfg), AutoCallStack (Error_cfg cfg))
             else (False, False)) = (autoSource, autoCallStack)"
    by (rule prod.exhaust)
  from autoSource_step [where autoSource = autoSource and rt = rt and z = z and b = ?b] obtain z1 new1 where
    s1: "(if autoSource then
           (case getSourceString rt 3 of
              Inl p \<Rightarrow> Inl p
            | Inr (source, ok) \<Rightarrow>
                if ok then Inr (appendAttr z (Attr ''source'' (slog_String source)))
                else Inr z)
         else Inr z) = Inr z1"
    and m1: "maxCallStackDepth z1 = maxCallStackDepth z"
    and a1: "attrs z1 = attrs z @ new1" "callstacks_within new1 ?b" by blast
  from autoCallStack_step [where autoCallStack = autoCallStack and rt = rt and ?z1.0 = z1] obtain z2 new2 where
    s2: "(if autoCallStack then
            (case callStackLoop rt 3 (maxCallStackDepth z1) [] [] of
               Inl p \<Rightarrow> Inl p
             | Inr (probed, callStack) \<Rightarrow>
                 Inr (appendAttr z1 (Attr ''callstack'' (slog_Any_strings callStack))))
          else Inr z1) = Inr z2"
    and m2: "maxCallStackDepth z2 = maxCallStackDepth z1"
    and a2: "attrs z2 = attrs z1 @ new2" "callstacks_within new2 (max 0 (maxCallStackDepth z1 - 3))"
    by blast
  have "applyAutoFeatures rt cfg z level = Inr z2"
    unfolding applyAutoFeatures_def Let_def flags prod.case s1 sum.case s2 by (rule refl)
  moreover have "attrs z2 = attrs z @ (new1 @ new2)" using a1 a2 by simp
  moreover have "callstacks_within (new1 @ new2) ?b"
    using a1 a2 m1 by (simp add: callstacks_within_append)
  ultimately show ?thesis using m1 m2 by auto
qed

lemma constructed_then_WithCallStack:
  fixes z0 :: "'v zlogImpl"
  assumes "attrs z0 = []" "maxCallStackDepth z0 = getMaxCallStackDepth cfg lvl"
  shows "\<exists>z z'. applyAutoFeatures rt cfg z0 level = Inr z \<and> WithCallStack rt' z = Inr z'
          \<and> maxCallStackDepth z' = getMaxCallStackDepth cfg lvl
          \<and> callstacks_within (attrs z') (getMaxCallStackDepth cfg lvl)"
proof -
  let ?M = "getMaxCallStackDepth cfg lvl"
  have pos: "0 < ?M" by (rule getMaxCallStackDepth_pos)
  from applyAutoFeatures_total [of rt cfg z0 level] assms obtain z where
    z: "applyAutoFeatures rt cfg z0 level = Inr z" "maxCallStackDepth z = ?M"
    "callstacks_within (attrs z) (max 0 (?M - 3))" by auto
  from WithCallStack_total [of rt' z] z(2) obtain callStack where
    w: "WithCallStack rt' z = Inr (appendAttr z (Attr ''callstack'' (slog_Any_strings callStack)))"
    "int (length callStack) \<le> max 0 (?M - 2)" by auto
  let ?z' = "appendAttr z (Attr ''callstack'' (slog_Any_strings callStack))"
  have "callstacks_within (attrs z) ?M"
    using callstacks_within_mono [OF z(3)] pos by simp
  moreover have "int (length callStack) \<le> ?M" using w(2) pos by linarith
  ultimately have "callstacks_within (attrs ?z') ?M"
    by (simp add: appendAttr_def callstacks_within_def)
  moreover have "maxCallStackDepth ?z' = ?M" using z(2) by (simp add: appendAttr_def)
  ultimately show ?thesis using z(1) w(1) by blast
qed

section \<open>The sample inputs evaluated\<close>

lemmas eval_defs = getSourceString_def FormatInt_def digits10.simps slice_from_def HasPrefix_def
  frameAt_def entryAt_def

lemma deep_frame: "getSourceString deep_runtime j = Inr (''#app.ProcessOrder @ /app/order.go:42'', True)"
  by (simp add: deep_runtime_def eval_defs)

lemma sample2: "getSourceString sample_runtime 2 = Inr (''#app.ProcessOrder @ /app/order.go:42'', True)"
  by (simp add: sample_runtime_def eval_defs)
lemma sample3: "getSourceString sample_runtime 3 = Inr ('''', False)"
  by (simp add: sample_runtime_def eval_defs)
lemma sample4: "getSourceString sample_runtime 4 = Inr (''#? @ /app/shim.s:7'', True)"
  by (simp add: sample_runtime_def eval_defs)
lemma sample5: "getSourceString sample_runtime 5 = Inr (''#main.main @ /app/main.go:15'', True)"
  by (simp add: sample_runtime_def eval_defs)

lemma deep_loop: "callStackLoop deep_runtime 2 5 [] [] =
   Inr ([2, 3, 4], [''#app.ProcessOrder @ /app/order.go:42'', ''#app.ProcessOrder @ /app/order.go:42'', ''#app.ProcessOrder @ /app/order.go:42''])"
  by (simp add: callStackLoop.simps deep_frame HasPrefix_def)

lemma sample_loop: "callStackLoop sample_runtime 2 10 [] [] =
   Inr ([2, 3, 4, 5], [''#app.ProcessOrder @ /app/order.go:42'', ''#? @ /app/shim.s:7'', ''#main.main @ /app/main.go:15''])"
  by (simp add: callStackLoop.simps sample2 sample3 sample4 sample5 HasPrefix_def)

lemma sample_entry: "entryAt sample_runtime 5"
  by (simp add: entryAt_def frameAt_def sample5 HasPrefix_def)

lemma error_cfg_depth: "getMaxCallStackDepth sample_config LevelError = 3"
  by (simp add: getMaxCallStackDepth_def sample_config_def
        LevelDebug_def LevelInfo_def LevelWarn_def LevelError_def)

lemma deep_loop_3_3: "callStackLoop deep_runtime 3 3 [] [] = Inr ([], [])"
  by (simp add: callStackLoop.simps)

lemma deep_loop_2_3: "callStackLoop deep_runtime 2 3 [] [] =
    Inr ([2], [''#app.ProcessOrder @ /app/order.go:42''])"
  by (simp add: callStackLoop.simps deep_frame HasPrefix_def)

lemma Error_deep:
  "(Error deep_runtime sample_config :: panic + string zlogImpl) =
     Inr \<lparr>logger = LevelError,
          attrs = [Attr ''source'' (slog_String ''#app.ProcessOrder @ /app/order.go:42''),
                   Attr ''callstack'' (slog_Any_strings [])],
          maxCallStackDepth = 3\<rparr>"
  by (simp add: Error_def applyAutoFeatures_def Let_def getMaxCallStackDepth_def deep_frame
        deep_loop_3_3 appendAttr_def sample_config_def
        LevelDebug_def LevelInfo_def LevelWarn_def LevelError_def)

section \<open>Segment paths\<close>

text \<open>
  C1: the claim is that empty detail segments are dropped before joining, so that
  \<^verbatim>\<open>Segment("main", "", "sub")\<close> gives \<^verbatim>\<open>main/sub\<close>. \<^verbatim>\<open>Segment\<close> joins the details
  as they are: on that input it attaches the value \<^verbatim>\<open>main//sub\<close>.
\<close>

theorem Segment_keeps_empty_detail:
  "Segment z ''main'' ['''', ''sub''] = appendAttr z (Attr ''segment'' (slog_String ''main//sub''))"
  by (simp add: Segment_def)

section \<open>The range of skip values the collector walks\<close>

text \<open>
  C2, as stated: the collector probes the skip values from \<open>s\<close> up to but not including
  \<open>s + M\<close>. On a stack where every frame resolves and none is the entry point, started
  at 2 with depth 5, it probes 2, 3 and 4 only.
\<close>

theorem probes_counterexample:
  "map_sum id fst (callStackLoop deep_runtime 2 5 [] []) = Inr [2, 3, 4]
   \<and> [2, 3, 4] \<noteq> [2..2 + 5 - 1]"
  by (simp add: deep_loop upto_rec1)

text \<open>
  C2, amended: the collector probes the skip values from \<open>s\<close> up to but not including
  \<open>M\<close> itself, each once and in order, stopping early only after an entry-point frame;
  when no skip value in that range resolves to an entry-point frame it probes all of
  them. The frames collected are those found at the probed skip values, so there are at
  most \<open>max 0 (M - s)\<close> of them.
\<close>

theorem collector_probes:
  "\<exists>probed callStack.
      callStackLoop rt s M [] [] = Inr (probed, callStack)
    \<and> prefix probed [s..M - 1]
    \<and> ((\<forall>j. s \<le> j \<and> j < M \<longrightarrow> \<not> entryAt rt j) \<longrightarrow> probed = [s..M - 1])
    \<and> callStack = List.map_filter (frameAt rt) probed
    \<and> length callStack \<le> length probed
    \<and> int (length probed) \<le> max 0 (M - s)"
proof -
  obtain probed callStack where r: "callStackLoop rt s M [] [] = Inr (probed, callStack)"
    and post: "loop_post rt s M probed callStack" by (rule loop_result)
  from post have "prefix probed [s..M - 1]" "callStack = List.map_filter (frameAt rt) probed"
    by (simp_all add: loop_post_def)
  moreover have "(\<forall>j. s \<le> j \<and> j < M \<longrightarrow> \<not> entryAt rt j) \<longrightarrow> probed = [s..M - 1]"
    using post_full [OF post] by blast
  ultimately show ?thesis using r post_lengths [OF post] by blast
qed

theorem collector_probes_witness:
  "list_all (\<lambda>j. \<not> entryAt deep_runtime j) [2, 3, 4]
   \<and> map_sum id fst (callStackLoop deep_runtime 2 5 [] []) = Inr [2, 3, 4]
   \<and> map_sum id (length \<circ> snd) (callStackLoop deep_runtime 2 5 [] []) = Inr 3"
proof -
  have h: "\<forall>j. (2::int) \<le> j \<and> j < 5 \<longrightarrow> \<not> entryAt deep_runtime j"
    by (simp add: entryAt_def frameAt_def deep_frame HasPrefix_def)
  have u: "[2..5 - 1] = [2, 3, 4::int]" by (simp add: upto_rec1)
  from collector_probes [of deep_runtime 2 5] h u
  obtain callStack where
    r: "callStackLoop deep_runtime 2 5 [] [] = Inr ([2, 3, 4], callStack)"
    and c: "callStack = List.map_filter (frameAt deep_runtime) [2, 3, 4]" by auto
  from c have "length callStack = 3"
    by (simp add: List.map_filter_simps frameAt_def deep_frame)
  with r h show ?thesis by simp
qed

section \<open>The length of the collected call stack\<close>

text \<open>
  C3: whatever the call stack and the configuration, every \<^verbatim>\<open>callstack\<close> attribute on
  a builder (the one the auto-callstack feature attaches in the constructor and the one
  \<^verbatim>\<open>WithCallStack\<close> attaches) holds at most as many frames as the effective maximum
  depth of the builder's level; both calls always return a builder. The loop itself,
  started at a skip value that is not negative with a depth \<open>M\<close> that is not negative,
  returns at most \<open>M\<close> frames.
\<close>

theorem callstack_length_within_max_depth:
  "(0 \<le> s \<and> 0 \<le> M \<longrightarrow>
      (\<exists>probed callStack. callStackLoop rt s M [] [] = Inr (probed, callStack)
         \<and> int (length callStack) \<le> M))
   \<and> (\<exists>z z'. Debug rt cfg = Inr (z :: 'v zlogImpl) \<and> WithCallStack rt' z = Inr z'
        \<and> callstacks_within (attrs z') (getMaxCallStackDepth cfg LevelDebug))
   \<and> (\<exists>z z'. Info rt cfg = Inr (z :: 'v zlogImpl) \<and> WithCallStack rt' z = Inr z'
        \<and> callstacks_within (attrs z') (getMaxCallStackDepth cfg LevelInfo))
   \<and> (\<exists>z z'. Warn rt cfg = Inr (z :: 'v zlogImpl) \<and> WithCallStack rt' z = Inr z'
        \<and> callstacks_within (attrs z') (getMaxCallStackDepth cfg LevelWarn))
   \<and> (\<exists>z z'. Error rt cfg = Inr (z :: 'v zlogImpl) \<and> WithCallStack rt' z = Inr z'
        \<and> callstacks_within (attrs z') (getMaxCallStackDepth cfg LevelError))"
proof -
  have c: "\<exists>z z'. applyAutoFeatures rt cfg
              \<lparr>logger = lg, attrs = [], maxCallStackDepth = getMaxCallStackDepth cfg lvl\<rparr> lvl
                = Inr (z :: 'v zlogImpl)
            \<and> WithCallStack rt' z = Inr z'
            \<and> callstacks_within (attrs z') (getMaxCallStackDepth cfg lvl)" for lg lvl
    using constructed_then_WithCallStack
      [where ?z0.0 = "\<lparr>logger = lg, attrs = [], maxCallStackDepth = getMaxCallStackDepth cfg lvl\<rparr>"
         and cfg = cfg and lvl = lvl and level = lvl and rt = rt and rt' = rt']
    by auto
  have l: "0 \<le> s \<and> 0 \<le> M \<longrightarrow>
      (\<exists>probed callStack. callStackLoop rt s M [] [] = Inr (probed, callStack)
         \<and> int (length callStack) \<le> M)"
  proof -
    obtain probed callStack where r: "callStackLoop rt s M [] [] = Inr (probed, callStack)"
      and post: "loop_post rt s M probed callStack" by (rule loop_result)
    from post_lengths [OF post] have "0 \<le> s \<and> 0 \<le> M \<longrightarrow> int (length callStack) \<le> M"
      by linarith
    with r show ?thesis by blast
  qed
  show ?thesis
    unfolding Debug_def Info_def Warn_def Error_def Let_def
    using l c [of LevelDebug LevelDebug] c [of LevelInfo LevelInfo]
      c [of LevelWarn LevelWarn] c [of LevelError LevelError]
    by (intro conjI)
qed

theorem callstack_length_within_max_depth_witness:
  "(Error deep_runtime sample_config :: panic + string zlogImpl) =
     Inr \<lparr>logger = LevelError,
          attrs = [Attr ''source'' (slog_String ''#app.ProcessOrder @ /app/order.go:42''),
                   Attr ''callstack'' (slog_Any_strings [])],
          maxCallStackDepth = 3\<rparr>
   \<and> WithCallStack deep_runtime
        \<lparr>logger = LevelError,
          attrs = [Attr ''source'' (slog_String ''#app.ProcessOrder @ /app/order.go:42''),
                   Attr ''callstack'' (slog_Any_strings [])],
          maxCallStackDepth = 3\<rparr> =
     Inr \<lparr>logger = LevelError,
          attrs = [Attr ''source'' (slog_String ''#app.ProcessOrder @ /app/order.go:42''),
                   Attr ''callstack'' (slog_Any_strings []),
                   Attr ''callstack'' (slog_Any_strings [''#app.ProcessOrder @ /app/order.go:42''])
                     :: string Attr],
          maxCallStackDepth = 3\<rparr>
   \<and> callstacks_within
         [Attr ''source'' (slog_String ''#app.ProcessOrder @ /app/order.go:42''),
          Attr ''callstack'' (slog_Any_strings []),
          Attr ''callstack'' (slog_Any_strings [''#app.ProcessOrder @ /app/order.go:42''])
            :: string Attr] 3
   \<and> map_sum id (length \<circ> snd) (callStackLoop sample_runtime 2 10 [] []) = Inr 3"
proof -
  let ?z = "\<lparr>logger = LevelError,
          attrs = [Attr ''source'' (slog_String ''#app.ProcessOrder @ /app/order.go:42''),
                   Attr ''callstack'' (slog_Any_strings []) :: string Attr],
          maxCallStackDepth = 3\<rparr>"
  have w: "WithCallStack deep_runtime ?z =
     Inr \<lparr>logger = LevelError,
          attrs = [Attr ''source'' (slog_String ''#app.ProcessOrder @ /app/order.go:42''),
                   Attr ''callstack'' (slog_Any_strings []),
                   Attr ''callstack'' (slog_Any_strings [''#app.ProcessOrder @ /app/order.go:42''])],
          maxCallStackDepth = 3\<rparr>"
    by (simp add: WithCallStack_def deep_loop_2_3 appendAttr_def)
  from callstack_length_within_max_depth
    [where ?'v = string and rt = deep_runtime and rt' = deep_runtime and cfg = sample_config]
  obtain z z' :: "string zlogImpl" where
    e: "Error deep_runtime sample_config = Inr z" and w': "WithCallStack deep_runtime z = Inr z'"
    and c: "callstacks_within (attrs z') (getMaxCallStackDepth sample_config LevelError)"
    by blast
  from e Error_deep have z: "z = ?z" by simp
  from w' w z have "attrs z' =
         [Attr ''source'' (slog_String ''#app.ProcessOrder @ /app/order.go:42''),
          Attr ''callstack'' (slog_Any_strings []),
          Attr ''callstack'' (slog_Any_strings [''#app.ProcessOrder @ /app/order.go:42''])]"
    by auto
  with c error_cfg_depth have "callstacks_within
         [Attr ''source'' (slog_String ''#app.ProcessOrder @ /app/order.go:42''),
          Attr ''callstack'' (slog_Any_strings []),
          Attr ''callstack'' (slog_Any_strings [''#app.ProcessOrder @ /app/order.go:42''])
            :: string Attr] 3" by simp
  moreover from callstack_length_within_max_depth [of 2 10 sample_runtime] sample_loop
  have "map_sum id (length \<circ> snd) (callStackLoop sample_runtime 2 10 [] []) = Inr 3"
    by simp
  ultimately show ?thesis using Error_deep w by (intro conjI)
qed

section \<open>Stopping at the entry point\<close>

text \<open>
  C4: the loop stops right after appending a frame that starts with \<^verbatim>\<open>#main.main\<close>.
  So such a frame can only be the last element of the result; and when some skip value
  within the depth bound resolves to such a frame, the result is non-empty, its last
  element is the entry-point frame resolved at the last skip value probed, and no skip
  value after that one was probed.
\<close>

theorem stops_at_entry_point:
  "\<exists>probed callStack.
      callStackLoop rt s M [] [] = Inr (probed, callStack)
    \<and> (\<forall>f\<in>set (butlast callStack). \<not> HasPrefix f ''#main.main'')
    \<and> (\<forall>j. s \<le> j \<and> j < M \<and> entryAt rt j \<longrightarrow>
          probed = [s..last probed] \<and> last probed \<le> j
          \<and> callStack \<noteq> []
          \<and> getSourceString rt (last probed) = Inr (last callStack, True)
          \<and> HasPrefix (last callStack) ''#main.main'')"
proof -
  obtain probed callStack where r: "callStackLoop rt s M [] [] = Inr (probed, callStack)"
    and post: "loop_post rt s M probed callStack" by (rule loop_result)
  have a: "\<forall>f\<in>set (butlast callStack). \<not> HasPrefix f ''#main.main''"
    using post_butlast [OF post] .
  have b: "probed = [s..last probed] \<and> last probed \<le> j
          \<and> callStack \<noteq> []
          \<and> getSourceString rt (last probed) = Inr (last callStack, True)
          \<and> HasPrefix (last callStack) ''#main.main''"
    if j: "s \<le> j" "j < M" "entryAt rt j" for j
  proof -
    from post_entry [OF post j]
    have p: "probed = [s..last probed]" "last probed \<le> j" "entryAt rt (last probed)"
      "callStack \<noteq> []" "frameAt rt (last probed) = Some (last callStack)" by simp_all
    from p(5) have g: "getSourceString rt (last probed) = Inr (last callStack, True)"
      by (auto simp: frameAt_def split: sum.splits prod.splits if_splits)
    from p(3,5) have "HasPrefix (last callStack) ''#main.main''" by (simp add: entryAt_def)
    with p g show ?thesis by simp
  qed
  from r a b show ?thesis by blast
qed

theorem stops_at_entry_point_witness:
  "entryAt sample_runtime 5
   \<and> callStackLoop sample_runtime 2 10 [] [] =
       Inr ([2, 3, 4, 5],
            [''#app.ProcessOrder @ /app/order.go:42'', ''#? @ /app/shim.s:7'',
             ''#main.main @ /app/main.go:15''])
   \<and> getSourceString sample_runtime (last [2, 3, 4, 5]) = Inr (''#main.main @ /app/main.go:15'', True)
   \<and> frameAt sample_runtime 6 = Some ''#runtime.main @ /go/src/runtime/proc.go:283''"
proof -
  have f6: "frameAt sample_runtime 6 = Some ''#runtime.main @ /go/src/runtime/proc.go:283''"
    by (simp add: sample_runtime_def eval_defs)
  from stops_at_entry_point [of sample_runtime 2 10] sample_entry sample_loop sample5 f6
  show ?thesis by auto
qed

section \<open>Frames that do not resolve\<close>

text \<open>
  C5: a skip value at which the resolver reports not found adds nothing to the call
  stack and the loop goes on with the next skip value. The loop ends only at the depth
  bound or after an entry-point frame, never because a frame did not resolve; the result
  holds the frames found at the probed skip values. No error reaches the caller:
  \<^verbatim>\<open>WithCallStack\<close> always returns a builder, and \<^verbatim>\<open>WithSource\<close> returns the builder
  unchanged when its frame does not resolve.
\<close>

theorem unresolved_frames_are_skipped:
  "(Caller rt skip = None \<and> skip < M \<longrightarrow>
      callStackLoop rt skip M probed callStack
        = callStackLoop rt (skip + 1) M (probed @ [skip]) callStack)
   \<and> (\<exists>probed' callStack'.
         callStackLoop rt s M [] [] = Inr (probed', callStack')
         \<and> callStack' = List.map_filter (frameAt rt) probed'
         \<and> (probed' = [s..M - 1] \<or> (probed' \<noteq> [] \<and> entryAt rt (last probed'))))
   \<and> (\<exists>z'. WithCallStack rt z = Inr z')
   \<and> (Caller rt' 2 = None \<longrightarrow> WithSource rt' z = Inr z)"
proof -
  have a: "callStackLoop rt skip M probed callStack
        = callStackLoop rt (skip + 1) M (probed @ [skip]) callStack"
    if "Caller rt skip = None" "skip < M"
  proof -
    from that(1) have "getSourceString rt skip = Inr ('''', False)"
      by (simp add: getSourceString_def)
    from loop_absent [OF that(2) this] show ?thesis .
  qed
  obtain probed' callStack' where r: "callStackLoop rt s M [] [] = Inr (probed', callStack')"
    and post: "loop_post rt s M probed' callStack'" by (rule loop_result)
  have b: "callStack' = List.map_filter (frameAt rt) probed'"
    and c: "probed' = [s..M - 1] \<or> (probed' \<noteq> [] \<and> entryAt rt (last probed'))"
    using post by (simp_all add: loop_post_def)
  have d: "\<exists>z'. WithCallStack rt z = Inr z'" using WithCallStack_total [of rt z] by blast
  have e: "Caller rt' 2 = None \<longrightarrow> WithSource rt' z = Inr z"
    by (simp add: WithSource_def getSourceString_def)
  from a r b c d e show ?thesis by blast
qed

theorem unresolved_frames_are_skipped_witness:
  "Caller sample_runtime 3 = None
   \<and> callStackLoop sample_runtime 3 10 [2] [''#app.ProcessOrder @ /app/order.go:42'']
       = callStackLoop sample_runtime 4 10 [2, 3] [''#app.ProcessOrder @ /app/order.go:42'']
   \<and> callStackLoop sample_runtime 2 10 [] [] =
       Inr ([2, 3, 4, 5],
            [''#app.ProcessOrder @ /app/order.go:42'', ''#? @ /app/shim.s:7'',
             ''#main.main @ /app/main.go:15''])
   \<and> Caller empty_runtime 2 = None
   \<and> WithSource empty_runtime fresh_logger = Inr fresh_logger"
proof -
  have h: "Caller sample_runtime 3 = None" by (simp add: sample_runtime_def)
  have h2: "Caller empty_runtime 2 = None" by (simp add: empty_runtime_def)
  from unresolved_frames_are_skipped [of sample_runtime 3 10 "[2]"
      "[''#app.ProcessOrder @ /app/order.go:42'']" 2 fresh_logger empty_runtime] h h2 sample_loop
  show ?thesis by simp
qed

section \<open>Effective call-stack depth\<close>

text \<open>
  C6: for each of the four levels the effective depth is the configured
  \<^verbatim>\<open>MaxCallStackDepth\<close> when that is positive and otherwise the default of the level
  (Debug 20, Info 5, Warn 5, Error 10); for any other level it is 5.
\<close>

theorem getMaxCallStackDepth_effective:
  "getMaxCallStackDepth cfg LevelDebug =
     (if 0 < MaxCallStackDepth (Debug_cfg cfg) then MaxCallStackDepth (Debug_cfg cfg) else 20)
   \<and> getMaxCallStackDepth cfg LevelInfo =
     (if 0 < MaxCallStackDepth (Info_cfg cfg) then MaxCallStackDepth (Info_cfg cfg) else 5)
   \<and> getMaxCallStackDepth cfg LevelWarn =
     (if 0 < MaxCallStackDepth (Warn_cfg cfg) then MaxCallStackDepth (Warn_cfg cfg) else 5)
   \<and> getMaxCallStackDepth cfg LevelError =
     (if 0 < MaxCallStackDepth (Error_cfg cfg) then MaxCallStackDepth (Error_cfg cfg) else 10)
   \<and> (\<forall>level. level \<notin> {LevelDebug, LevelInfo, LevelWarn, LevelError}
         \<longrightarrow> getMaxCallStackDepth cfg level = 5)"
  by (simp add: getMaxCallStackDepth_def map_index_def defaultCallStackDepths_def
        LevelDebug_def LevelInfo_def LevelWarn_def LevelError_def)

theorem getMaxCallStackDepth_effective_witness:
  "(12::int) \<notin> {LevelDebug, LevelInfo, LevelWarn, LevelError}
   \<and> getMaxCallStackDepth sample_config 12 = 5
   \<and> getMaxCallStackDepth sample_config LevelError = 3
   \<and> getMaxCallStackDepth sample_config LevelWarn = 5"
proof -
  have h: "(12::int) \<notin> {LevelDebug, LevelInfo, LevelWarn, LevelError}"
    by (simp add: LevelDebug_def LevelInfo_def LevelWarn_def LevelError_def)
  from getMaxCallStackDepth_effective [of sample_config] h show ?thesis
    by (simp add: sample_config_def)
qed

section \<open>Frames without a symbol\<close>

text \<open>
  C7: when \<^verbatim>\<open>runtime.Caller\<close> supplies a frame whose program counter has no function
  (\<^verbatim>\<open>FuncForPC\<close> yields nil), \<^verbatim>\<open>getSourceString\<close> prints \<^verbatim>\<open>?\<close> as the function name
  and reports the frame as found; it reports not found exactly when \<^verbatim>\<open>runtime.Caller\<close>
  supplies no frame at that skip.
\<close>

theorem unknown_symbol_placeholder:
  "(Caller rt skip = Some (pc, fl, ln) \<and> FuncForPC rt pc = None
      \<longrightarrow> getSourceString rt skip = Inr (''#?'' @ '' @ '' @ fl @ '':'' @ FormatInt ln, True))
   \<and> (Caller rt skip \<noteq> None \<longrightarrow> (\<exists>current. getSourceString rt skip = Inr (current, True)))
   \<and> (Caller rt skip = None \<longrightarrow> getSourceString rt skip = Inr ('''', False))"
  by (cases "Caller rt skip") (auto simp: getSourceString_total funcName_of_def)

theorem unknown_symbol_placeholder_witness:
  "Caller sample_runtime 4 = Some (32, ''/app/shim.s'', 7) \<and> FuncForPC sample_runtime 32 = None
   \<and> getSourceString sample_runtime 4 = Inr (''#? @ /app/shim.s:7'', True)
   \<and> Caller sample_runtime 3 = None \<and> getSourceString sample_runtime 3 = Inr ('''', False)"
proof -
  have h: "Caller sample_runtime 4 = Some (32, ''/app/shim.s'', 7) \<and> FuncForPC sample_runtime 32 = None"
    by (simp add: sample_runtime_def)
  have h3: "Caller sample_runtime 3 = None" by (simp add: sample_runtime_def)
  from unknown_symbol_placeholder [of sample_runtime 4 32 "''/app/shim.s''" 7]
    unknown_symbol_placeholder [of sample_runtime 3] h h3
  show ?thesis by (simp add: FormatInt_def digits10.simps)
qed

section \<open>Context extraction\<close>

lemma Context_loop_apply:
  "Context_loop ctx keys m x = (if x \<in> set keys \<and> ctx x \<noteq> None then ctx x else m x)"
  by (induction keys arbitrary: m) (auto split: option.splits)

lemma Context_loop_empty: "Context_loop ctx keys Map.empty = ctx |` set keys"
  by (rule ext) (auto simp: Context_loop_apply restrict_map_def)

text \<open>
  C8: \<^verbatim>\<open>Context\<close> attaches at most one \<^verbatim>\<open>app_ctx\<close> attribute. Its map holds exactly
  the listed keys whose lookup is non-nil, with the values looked up; when no listed key
  resolves, the builder comes back as it was, with no attribute added.
\<close>

theorem Context_attaches_resolved_keys:
  "Context z ctx keys =
     (if \<forall>key\<in>set keys. ctx key = None then z
      else appendAttr z (Attr ''app_ctx'' (slog_Any_map (ctx |` set keys))))"
proof -
  have d: "(dom (ctx |` set keys) = {}) = (\<forall>key\<in>set keys. ctx key = None)"
    by (auto simp: restrict_map_def dom_def split: if_splits)
  show ?thesis unfolding Context_def Let_def Context_loop_empty d by (rule refl)
qed

theorem Context_attaches_resolved_keys_witness:
  "sample_ctx ''missing'' = None
   \<and> Context fresh_logger sample_ctx [''missing''] = fresh_logger
   \<and> attrs (Context fresh_logger sample_ctx [''userID'', ''requestID'', ''missing''])
       = [Attr ''app_ctx'' (slog_Any_map (sample_ctx |` {''userID'', ''requestID'', ''missing''}))]
   \<and> dom (sample_ctx |` {''userID'', ''requestID'', ''missing''}) = {''userID'', ''requestID''}"
proof -
  have h: "\<forall>key\<in>set [''missing'']. sample_ctx key = None"
    by (simp add: sample_ctx_def)
  have n: "\<not> (\<forall>key\<in>set [''userID'', ''requestID'', ''missing'']. sample_ctx key = None)"
    by (simp add: sample_ctx_def)
  have d: "dom (sample_ctx |` {''userID'', ''requestID'', ''missing''}) = {''userID'', ''requestID''}"
    by (auto simp: sample_ctx_def restrict_map_def dom_def split: if_splits)
  from Context_attaches_resolved_keys [of fresh_logger sample_ctx "[''missing'']"]
    Context_attaches_resolved_keys [of fresh_logger sample_ctx "[''userID'', ''requestID'', ''missing'']"]
    h n d
  show ?thesis by (simp add: appendAttr_def fresh_logger_def)
qed

section \<open>No panic, and nothing collected for a depth that is not positive\<close>

text \<open>
  C9: the frame resolver and the collector never panic: \<^verbatim>\<open>getSourceString\<close>, the
  collector loop, \<^verbatim>\<open>WithSource\<close>, \<^verbatim>\<open>WithCallStack\<close> and \<^verbatim>\<open>applyAutoFeatures\<close> return a
  value on every input. For a maximum depth that is zero or negative the collected
  sequence is empty.
\<close>

theorem resolver_and_collector_never_panic:
  "(\<exists>r. getSourceString rt skip = Inr r)
   \<and> (\<exists>r. callStackLoop rt skip M probed callStack = Inr r)
   \<and> (\<exists>z'. WithSource rt z = Inr z')
   \<and> (\<exists>z'. WithCallStack rt z = Inr z')
   \<and> (\<exists>z'. applyAutoFeatures rt cfg z level = Inr z')
   \<and> (M \<le> 0 \<and> 0 \<le> s \<longrightarrow> callStackLoop rt s M [] [] = Inr ([], []))
   \<and> (maxCallStackDepth z \<le> 0 \<longrightarrow>
        WithCallStack rt z = Inr (appendAttr z (Attr ''callstack'' (slog_Any_strings []))))"
proof -
  have a: "\<exists>r. getSourceString rt skip = Inr r" using getSourceString_Inr [of rt skip] by blast
  have b: "\<exists>r. callStackLoop rt skip M probed callStack = Inr r"
    using loop_shape [of rt skip M probed callStack] by blast
  have c: "\<exists>z'. WithSource rt z = Inr z'" by (rule WithSource_total)
  have d: "\<exists>z'. WithCallStack rt z = Inr z'" using WithCallStack_total [of rt z] by blast
  have e: "\<exists>z'. applyAutoFeatures rt cfg z level = Inr z'"
    using applyAutoFeatures_total [of rt cfg z level] by blast
  have f: "M \<le> 0 \<and> 0 \<le> s \<longrightarrow> callStackLoop rt s M [] [] = Inr ([], [])"
    by (simp add: loop_done)
  have g: "maxCallStackDepth z \<le> 0 \<longrightarrow>
        WithCallStack rt z = Inr (appendAttr z (Attr ''callstack'' (slog_Any_strings [])))"
    by (simp add: WithCallStack_def loop_done)
  from a b c d e f g show ?thesis by blast
qed

theorem resolver_and_collector_never_panic_witness:
  "callStackLoop deep_runtime 2 (-3) [] [] = Inr ([], [])
   \<and> callStackLoop deep_runtime 3 0 [] [] = Inr ([], [])
   \<and> maxCallStackDepth misconfigured_logger \<le> 0
   \<and> WithCallStack deep_runtime misconfigured_logger =
       Inr \<lparr>logger = LevelInfo, attrs = [Attr ''callstack'' (slog_Any_strings [])],
            maxCallStackDepth = -3\<rparr>"
proof -
  have h: "maxCallStackDepth misconfigured_logger \<le> 0" by (simp add: misconfigured_logger_def)
  from resolver_and_collector_never_panic [of deep_runtime _ "-3" _ _ misconfigured_logger _ _ 2]
    resolver_and_collector_never_panic [of deep_runtime _ 0 _ _ misconfigured_logger _ _ 3] h
  show ?thesis by (simp add: appendAttr_def misconfigured_logger_def)
qed

section \<open>Attaching an error\<close>

text \<open>
  C10: for a non-nil error, \<^verbatim>\<open>WithError\<close> and its alias \<^verbatim>\<open>Err\<close> append exactly one
  \<^verbatim>\<open>error_msg\<close> attribute holding the error's \<^verbatim>\<open>Error()\<close> text, after the attributes
  already there; for a nil error both panic with a nil dereference.
\<close>

theorem WithError_appends_error_msg:
  "WithError z (Some (errorString msg)) =
     Inr (z\<lparr>attrs := attrs z @ [Attr ''error_msg'' (slog_String msg)]\<rparr>)
   \<and> Err z (Some (errorString msg)) =
     Inr (z\<lparr>attrs := attrs z @ [Attr ''error_msg'' (slog_String msg)]\<rparr>)
   \<and> WithError z None = Inl NilDereference
   \<and> Err z None = Inl NilDereference"
  by (simp add: WithError_def Err_def err_Error_def appendAttr_def)

end
